theory Spec2Isabelle
  imports Complex_Main
begin

section \<open>The fine-tuning driver \<open>src/train.py\<close>\<close>

text \<open>
  The driver is one Python function, \<open>main\<close>. Its pieces are embedded one by one, in the
  order of the source: every definition names the lines it is taken from. Exceptions are
  values of \<open>error\<close>; a computation that may raise returns \<open>error + 'a\<close>.
  Tensors of floating-point numbers are lists of reals: the arithmetic on them is exact,
  rounding is not modelled. The one float that decides the control flow, the quotient of
  line 158, is rounded as a double is.
\<close>

datatype error =
    AssertionError string
  | AttributeError
  | IndexError
  | ValueError
  | RuntimeError
  | ZeroDivisionError
  | OverflowError
  | LoadError
  | SampleError

type_synonym tensor2 = "real list list"

subsection \<open>Gradient masking (lines 189-194)\<close>

text \<open>\<open>torch.arange(n) != k\<close>: the boolean vector of length \<open>n\<close> that is false at \<open>k\<close> only.\<close>

definition arange_ne :: "nat \<Rightarrow> nat \<Rightarrow> bool list" where
  "arange_ne n k = map (\<lambda>j. j \<noteq> k) [0..<n]"

text \<open>
  Lines 192-193: \<open>for i in range(len(mod_tokens_id[1:]))\<close>, the body reads
  \<open>mod_tokens_id[i]\<close>. The index \<open>i\<close> stays below \<open>len(mod_tokens_id) - 1\<close>, so the read
  is always in range.
\<close>

fun index_no_updates_loop :: "nat \<Rightarrow> nat list \<Rightarrow> nat list \<Rightarrow> bool list \<Rightarrow> bool list" where
  "index_no_updates_loop n mod_tokens_id [] acc = acc"
| "index_no_updates_loop n mod_tokens_id (i # is) acc =
     index_no_updates_loop n mod_tokens_id is
       (map2 (\<and>) acc (arange_ne n (mod_tokens_id ! i)))"

text \<open>Lines 191-193; \<open>n\<close> is \<open>len(tokenizer)\<close>. \<open>mod_tokens_id[0]\<close> raises on an empty list.\<close>

definition index_no_updates :: "nat \<Rightarrow> nat list \<Rightarrow> error + bool list" where
  "index_no_updates n mod_tokens_id =
     (case mod_tokens_id of
        [] \<Rightarrow> Inl IndexError
      | id0 # rest \<Rightarrow>
          Inr (index_no_updates_loop n mod_tokens_id [0..<length rest] (arange_ne n id0)))"

text \<open>
  Line 194: the rows selected by the boolean index are overwritten with zeros. A boolean
  index whose length is not the number of rows raises.
\<close>

definition fill_rows :: "bool list \<Rightarrow> tensor2 \<Rightarrow> error + tensor2" where
  "fill_rows idx grads =
     (if length idx = length grads
      then Inr (map2 (\<lambda>b row. if b then map (\<lambda>_. 0) row else row) idx grads)
      else Inl IndexError)"

definition mask_grads :: "nat \<Rightarrow> nat list \<Rightarrow> tensor2 \<Rightarrow> error + tensor2" where
  "mask_grads n mod_tokens_id grads_text_encoder =
     (case index_no_updates n mod_tokens_id of
        Inl e \<Rightarrow> Inl e
      | Inr idx \<Rightarrow> fill_rows idx grads_text_encoder)"

subsection \<open>The optimizer (line 127, lines 196-197)\<close>

text \<open>
  \<open>torch.optim.AdamW\<close> is library code. Its state and its step are written here after the
  library's documented algorithm (decoupled weight decay, then the Adam update with bias
  correction), for the one parameter tensor the masking is about, the embedding table.
  The moment estimates start at zero.
\<close>

record adamw =
  opt_lr :: real
  beta1 :: real
  beta2 :: real
  opt_eps :: real
  weight_decay :: real
  opt_step :: nat
  exp_avg :: tensor2
  exp_avg_sq :: tensor2

definition zeros_like :: "tensor2 \<Rightarrow> tensor2" where
  "zeros_like w = map (map (\<lambda>_. 0)) w"

text \<open>One element: parameter \<open>p\<close>, gradient \<open>g\<close>, moments \<open>m\<close> and \<open>v\<close>, step number \<open>t\<close>.\<close>

definition adamw_elem :: "adamw \<Rightarrow> nat \<Rightarrow> real \<Rightarrow> real \<Rightarrow> real \<Rightarrow> real \<Rightarrow> real \<times> real \<times> real" where
  "adamw_elem opt t p g m v =
     (let p1 = p * (1 - opt_lr opt * weight_decay opt);
          m1 = m + (1 - beta1 opt) * (g - m);
          v1 = v * beta2 opt + (1 - beta2 opt) * (g * g);
          bias_correction1 = 1 - beta1 opt ^ t;
          bias_correction2 = 1 - beta2 opt ^ t;
          step_size = opt_lr opt / bias_correction1;
          denom = sqrt v1 / sqrt bias_correction2 + opt_eps opt
      in (p1 - step_size * (m1 / denom), m1, v1))"

definition adamw_row :: "adamw \<Rightarrow> nat \<Rightarrow> real list \<Rightarrow> real list \<Rightarrow> real list \<Rightarrow> real list
    \<Rightarrow> (real \<times> real \<times> real) list" where
  "adamw_row opt t ps gs ms vs =
     map (\<lambda>(p, g, m, v). adamw_elem opt t p g m v) (zip ps (zip gs (zip ms vs)))"

definition adamw_step :: "adamw \<Rightarrow> tensor2 \<Rightarrow> tensor2 \<Rightarrow> tensor2 \<times> adamw" where
  "adamw_step opt w grads =
     (let t = Suc (opt_step opt);
          rows = map (\<lambda>(ps, gs, ms, vs). adamw_row opt t ps gs ms vs)
                   (zip w (zip grads (zip (exp_avg opt) (exp_avg_sq opt))))
      in (map (map fst) rows,
          opt\<lparr>opt_step := t,
              exp_avg := map (map (\<lambda>r. fst (snd r))) rows,
              exp_avg_sq := map (map (\<lambda>r. snd (snd r))) rows\<rparr>))"

text \<open>
  Lines 190-197 of one training step: the gradient of the embedding table, as the backward
  pass left it, is masked, then the optimizer steps. \<open>n\<close> is \<open>len(tokenizer)\<close>.
\<close>

definition train_step :: "nat \<Rightarrow> nat list \<Rightarrow> tensor2 \<Rightarrow> tensor2 \<times> adamw \<Rightarrow> error + tensor2 \<times> adamw" where
  "train_step n mod_tokens_id grads s =
     (case mask_grads n mod_tokens_id grads of
        Inl e \<Rightarrow> Inl e
      | Inr g \<Rightarrow> Inr (adamw_step (snd s) (fst s) g))"

text \<open>Line 127: the optimizer as \<open>main\<close> constructs it, for a learning rate \<open>l\<close>.\<close>

definition AdamW :: "real \<Rightarrow> tensor2 \<Rightarrow> adamw" where
  "AdamW l w =
     \<lparr>opt_lr = l, beta1 = 9 / 10, beta2 = 999 / 1000, opt_eps = 1 / 10 ^ 8,
      weight_decay = 1 / 100, opt_step = 0,
      exp_avg = zeros_like w, exp_avg_sq = zeros_like w\<rparr>"


subsection \<open>Learning-rate scaling (lines 127-136)\<close>

datatype ftype = Text | Custom

text \<open>
  The parsed command line (lines 26-47), the fields \<open>main\<close> branches on. \<open>--token\<close>,
  \<open>--term\<close>, \<open>--data\<close>, \<open>--term_data\<close> and \<open>--delta_ckpt\<close> default to \<open>None\<close>.
  \<open>a_scale_lr\<close> is the truth value of \<open>a.scale_lr\<close>.
\<close>

record args =
  a_type :: ftype
  a_token :: "string option"
  a_term :: "string option"
  a_data :: "string option"
  a_term_data :: "string option"
  a_delta_ckpt :: "string option"
  a_batch_size :: int
  a_train_steps :: int
  a_save_step :: int
  a_lr :: real
  a_scale_lr :: bool

text \<open>The defaults of the argument parser (lines 28-46).\<close>

definition default_args :: args where
  "default_args =
     \<lparr>a_type = Custom, a_token = None, a_term = None, a_data = None, a_term_data = None,
      a_delta_ckpt = None, a_batch_size = 1, a_train_steps = 2000, a_save_step = 500,
      a_lr = 1 / 10 ^ 5, a_scale_lr = True\<rparr>"

text \<open>
  Line 127 passes \<open>a.lr\<close> to the optimizer's constructor; lines 133-136, which come after,
  rebind \<open>a.lr\<close>. The result is the learning rate the optimizer was constructed with and
  the arguments as line 136 leaves them.
\<close>

definition optimization :: "args \<Rightarrow> bool \<Rightarrow> real \<times> args" where
  "optimization a with_prior =
     (let optimizer_lr = a_lr a;
          a1 = (if a_scale_lr a then a\<lparr>a_lr := a_lr a * real_of_int (a_batch_size a)\<rparr> else a);
          a2 = (if a_scale_lr a \<and> with_prior then a1\<lparr>a_lr := a_lr a1 * 2\<rparr> else a1)
      in (optimizer_lr, a2))"

subsection \<open>Parsing the inputs (lines 78-85)\<close>

text \<open>Python's \<open>s.split(sep)\<close> for a one-character separator: never an empty list.\<close>

fun split_from :: "char \<Rightarrow> string \<Rightarrow> string \<Rightarrow> string list" where
  "split_from sep cur [] = [cur]"
| "split_from sep cur (c # cs) =
     (if c = sep then cur # split_from sep [] cs else split_from sep (cur @ [c]) cs)"

definition split_plus :: "string \<Rightarrow> string list" where
  "split_plus s = split_from (CHR ''+'') [] s"

text \<open>Line 79: \<open>'<%s>' % t\<close>.\<close>

definition angle :: "string \<Rightarrow> string" where
  "angle t = ''<'' @ t @ ''>''"

definition assert_msg :: string where
  "assert_msg = ''Provide equal num of tokens, terms and data folders (separated by '' @
     [CHR 0x27] @ ''+'' @ [CHR 0x27] @ '')''"

record inputs =
  p_with_prior :: bool
  p_mod_tokens :: "string list"
  p_init_tokens :: "string list"
  p_data_dirs :: "string list"
  p_term_data_dirs :: "string list option"

text \<open>\<open>.split\<close> on \<open>None\<close> raises AttributeError; a failed \<open>assert\<close> raises AssertionError.\<close>

definition parse_inputs :: "args \<Rightarrow> error + inputs" where
  "parse_inputs a =
     (let with_prior = (a_term_data a \<noteq> None \<and> a_term a \<noteq> None) in
      (case a_token a of None \<Rightarrow> Inl AttributeError | Some tk \<Rightarrow>
      (case a_term a of None \<Rightarrow> Inl AttributeError | Some tm \<Rightarrow>
      (case a_data a of None \<Rightarrow> Inl AttributeError | Some d \<Rightarrow>
        (let mod_tokens = map angle (split_plus tk);
             init_tokens = split_plus tm;
             data_dirs = split_plus d
         in if length mod_tokens = length init_tokens \<and> length init_tokens = length data_dirs
            then (if with_prior
                  then (case a_term_data a of
                          None \<Rightarrow> Inl AttributeError
                        | Some td \<Rightarrow>
                            if length mod_tokens = length (split_plus td)
                            then Inr \<lparr>p_with_prior = with_prior, p_mod_tokens = mod_tokens,
                                      p_init_tokens = init_tokens, p_data_dirs = data_dirs,
                                      p_term_data_dirs = Some (split_plus td)\<rparr>
                            else Inl (AssertionError assert_msg))
                  else Inr \<lparr>p_with_prior = with_prior, p_mod_tokens = mod_tokens,
                            p_init_tokens = init_tokens, p_data_dirs = data_dirs,
                            p_term_data_dirs = None\<rparr>)
            else Inl (AssertionError assert_msg))))))"

subsection \<open>Preparing the tokens (lines 88-93)\<close>

text \<open>
  The tokenizer is library code (\<open>transformers.CLIPTokenizer\<close>). What \<open>main\<close> uses of it: the
  vocabulary, an entry's id being its position; \<open>add_tokens\<close>, which appends a string that
  is not an entry yet and returns how many it added; \<open>convert_tokens_to_ids\<close>, the id of
  an entry, the unknown token's id for a string that is none; \<open>encode\<close>, taken as a
  parameter that reads the vocabulary.
\<close>

record tokenizer =
  vocab :: "string list"
  unk_token_id :: nat

fun index_of :: "'a \<Rightarrow> 'a list \<Rightarrow> nat option" where
  "index_of t [] = None"
| "index_of t (x # xs) =
     (if x = t then Some 0 else (case index_of t xs of None \<Rightarrow> None | Some i \<Rightarrow> Some (Suc i)))"

definition add_tokens :: "tokenizer \<Rightarrow> string \<Rightarrow> nat \<times> tokenizer" where
  "add_tokens tok t =
     (if t \<in> set (vocab tok) then (0, tok) else (1, tok\<lparr>vocab := vocab tok @ [t]\<rparr>))"

definition convert_tokens_to_ids :: "tokenizer \<Rightarrow> string \<Rightarrow> nat" where
  "convert_tokens_to_ids tok t =
     (case index_of t (vocab tok) of Some i \<Rightarrow> i | None \<Rightarrow> unk_token_id tok)"

text \<open>
  The loop of lines 90-93 over \<open>zip(mod_tokens, init_tokens)\<close>, with the two id lists as
  accumulators. \<open>num_added_tokens\<close> is bound and not read; \<open>[0]\<close> on an empty encoding
  raises IndexError.
\<close>

fun prepare_tokens :: "(string list \<Rightarrow> string \<Rightarrow> nat list) \<Rightarrow> tokenizer \<Rightarrow> (string \<times> string) list
    \<Rightarrow> nat list \<Rightarrow> nat list \<Rightarrow> error + tokenizer \<times> nat list \<times> nat list" where
  "prepare_tokens enc tok [] mod_tokens_id init_tokens_id =
     Inr (tok, mod_tokens_id, init_tokens_id)"
| "prepare_tokens enc tok ((mod_token, init_token) # rest) mod_tokens_id init_tokens_id =
     (let (num_added_tokens, tok1) = add_tokens tok mod_token;
          new_id = convert_tokens_to_ids tok1 mod_token
      in case enc (vocab tok1) init_token of
           [] \<Rightarrow> Inl IndexError
         | i0 # _ \<Rightarrow>
             prepare_tokens enc tok1 rest (mod_tokens_id @ [new_id]) (init_tokens_id @ [i0]))"

subsection \<open>Batches and the loss (lines 106-114, 179-185)\<close>













subsection \<open>The training loop and \<open>main\<close> (lines 55-228)\<close>

datatype component = TextEncoder | Tokenizer | UNet | VAE | Scheduler | UNet0

text \<open>
  What the run depends on outside \<open>train.py\<close>: which pretrained components load, which
  files exist, whether \<open>load_delta\<close> returns and the tokenizer as it leaves it
  (\<open>util/finetune.py\<close> is not among the sources), the loaded tokenizer and its \<open>encode\<close>, the
  number of items of the dataset, and whether the sampling pipeline returns for a prompt at
  a global step.
\<close>

record env =
  load_ok :: "component \<Rightarrow> bool"
  isfile :: "string \<Rightarrow> bool"
  load_delta_ok :: bool
  pretrained_tokenizer :: tokenizer
  resumed_tokenizer :: tokenizer
  encode :: "string list \<Rightarrow> string \<Rightarrow> nat list"
  len_train_dataset :: nat
  pipetest_ok :: "nat \<Rightarrow> string \<Rightarrow> bool"

text \<open>
  The calls of \<open>main\<close> to its collaborators, in the order they are made. \<open>Load\<close> and
  \<open>LoadDelta\<close> are calls that returned; \<open>AddTokens\<close> is a call of \<open>tokenizer.add_tokens\<close> at
  line 91. \<open>OptStep g\<close> is the body of lines 167-199 that brings the global step to \<open>g\<close>. A
  checkpoint is tagged with its global step, the final one with \<open>None\<close>; \<open>SaveDelta\<close> also
  tells whether the call passes \<open>unet0\<close>. \<open>Pipetest\<close> is the call of the sampling pipeline
  at line 215, whether it returns or raises.
\<close>

datatype event =
    Load component
  | LoadDelta string
  | AddTokens string
  | NewAdamW real
  | TrainMode nat
  | OptStep nat
  | SaveEmbeds "nat option"
  | SaveDelta "nat option" bool
  | Pipetest nat string
  | SaveImage nat string

text \<open>Lines 67-71: the components are loaded one after the other; the first that fails ends the run.\<close>

fun from_pretrained :: "env \<Rightarrow> component list \<Rightarrow> (error + unit) \<times> event list" where
  "from_pretrained env [] = (Inr (), [])"
| "from_pretrained env (c # cs) =
     (if load_ok env c
      then (case from_pretrained env cs of (r, evs) \<Rightarrow> (r, Load c # evs))
      else (Inl LoadError, []))"

text \<open>Line 74: the delta checkpoint that is resumed, if any.\<close>

definition resume_path :: "env \<Rightarrow> args \<Rightarrow> string option" where
  "resume_path env a =
     (case a_delta_ckpt a of
        None \<Rightarrow> None
      | Some path \<Rightarrow> if a_type a = Custom \<and> isfile env path then Some path else None)"

text \<open>Lines 67-75; the result is the tokenizer as these lines leave it.\<close>

definition load_models :: "env \<Rightarrow> args \<Rightarrow> (error + tokenizer) \<times> event list" where
  "load_models env a =
     (case from_pretrained env [TextEncoder, Tokenizer, UNet, VAE, Scheduler] of
        (Inl e, evs) \<Rightarrow> (Inl e, evs)
      | (Inr _, evs) \<Rightarrow>
          (case resume_path env a of
             None \<Rightarrow> (Inr (pretrained_tokenizer env), evs)
           | Some path \<Rightarrow>
               if load_delta_ok env then (Inr (resumed_tokenizer env), evs @ [LoadDelta path])
               else (Inl LoadError, evs)))"

text \<open>
  The calls of \<open>add_tokens\<close> that the loop of lines 90-93 makes: one for each pair it
  reaches.
\<close>

fun add_tokens_calls :: "(string list \<Rightarrow> string \<Rightarrow> nat list) \<Rightarrow> tokenizer \<Rightarrow> (string \<times> string) list
    \<Rightarrow> event list" where
  "add_tokens_calls enc tok [] = []"
| "add_tokens_calls enc tok ((mod_token, init_token) # rest) =
     AddTokens mod_token #
     (case enc (vocab (snd (add_tokens tok mod_token))) init_token of
        [] \<Rightarrow> []
      | _ # _ \<Rightarrow> add_tokens_calls enc (snd (add_tokens tok mod_token)) rest)"

text \<open>
  Line 115, and \<open>len(train_dataloader)\<close> of line 157: a shuffling data loader refuses a
  dataset without items and a batch size below one; it has one batch for every
  \<open>batch_size\<close> items and one for the rest.
\<close>

definition DataLoader :: "nat \<Rightarrow> int \<Rightarrow> error + nat" where
  "DataLoader n batch_size =
     (if n = 0 then Inl ValueError
      else if batch_size \<le> 0 then Inl ValueError
      else Inr ((n + nat batch_size - 1) div nat batch_size))"

text \<open>Lines 213-216: one sample per pair of \<open>zip(mod_tokens, init_tokens)\<close>.\<close>

fun test_sample :: "env \<Rightarrow> nat \<Rightarrow> (string \<times> string) list \<Rightarrow> (error + unit) \<times> event list" where
  "test_sample env global_step [] = (Inr (), [])"
| "test_sample env global_step ((mod_token, init_token) # rest) =
     (let prompt = ''photo of '' @ mod_token @ '' '' @ init_token
      in if pipetest_ok env global_step prompt
         then (case test_sample env global_step rest of
                 (r, evs) \<Rightarrow>
                   (r, Pipetest global_step prompt
                       # SaveImage global_step (butlast (tl mod_token)) # evs))
         else (Inl SampleError, [Pipetest global_step prompt]))"

text \<open>Lines 200-216, with \<open>global_step\<close> already incremented. \<open>%\<close> by zero raises.\<close>

definition save_and_sample :: "env \<Rightarrow> args \<Rightarrow> inputs \<Rightarrow> nat \<Rightarrow> (error + unit) \<times> event list" where
  "save_and_sample env a inp global_step =
     (if a_save_step a = 0 then (Inl ZeroDivisionError, [])
      else if int global_step mod a_save_step a = 0
      then (case test_sample env global_step (zip (p_mod_tokens inp) (p_init_tokens inp)) of
              (r, evs) \<Rightarrow>
                (r, (if a_type a = Text then SaveEmbeds (Some global_step)
                     else SaveDelta (Some global_step) True) # evs))
      else (Inr (), []))"

text \<open>
  Lines 166-221, the loop over the batches of one epoch, \<open>k\<close> batches being left. The
  \<open>break\<close> of line 221 leaves this loop only.
\<close>

fun batch_loop :: "env \<Rightarrow> args \<Rightarrow> inputs \<Rightarrow> nat \<Rightarrow> nat \<Rightarrow> (error + nat) \<times> event list" where
  "batch_loop env a inp 0 global_step = (Inr global_step, [])"
| "batch_loop env a inp (Suc k) global_step =
     (case save_and_sample env a inp (global_step + 1) of
        (Inl e, evs) \<Rightarrow> (Inl e, OptStep (global_step + 1) # evs)
      | (Inr _, evs) \<Rightarrow>
          if a_train_steps a \<le> int (global_step + 1)
          then (Inr (global_step + 1), OptStep (global_step + 1) # evs)
          else (case batch_loop env a inp k (global_step + 1) of
                  (r, evs') \<Rightarrow> (r, OptStep (global_step + 1) # evs @ evs')))"

text \<open>Lines 163-221, the loop over \<open>range(num_epochs)\<close>, each epoch of \<open>epoch_steps\<close> batches.\<close>

fun epoch_loop :: "env \<Rightarrow> args \<Rightarrow> inputs \<Rightarrow> nat \<Rightarrow> nat list \<Rightarrow> nat \<Rightarrow> (error + nat) \<times> event list" where
  "epoch_loop env a inp epoch_steps [] global_step = (Inr global_step, [])"
| "epoch_loop env a inp epoch_steps (epoch # rest) global_step =
     (case batch_loop env a inp epoch_steps global_step of
        (Inl e, evs) \<Rightarrow> (Inl e, TrainMode epoch # evs)
      | (Inr g, evs) \<Rightarrow>
          (case epoch_loop env a inp epoch_steps rest g of
             (r, evs') \<Rightarrow> (r, TrainMode epoch # evs @ evs')))"

text \<open>
  Python's \<open>a / b\<close> for two integers is the double nearest the exact quotient, ties going to
  the even mantissa. \<open>round_half_even num den\<close> is the integer nearest \<open>num / den\<close>.
  \<open>shift_left\<close> looks for the least binary exponent, down to that of the subnormal numbers,
  at which the mantissa has 53 bits, \<open>shift_right\<close> for the least one at which it has no
  more than 53. A quotient too large for a double raises OverflowError, a zero divisor
  ZeroDivisionError. The double is given as the real number it stands for.
\<close>

definition round_half_even :: "nat \<Rightarrow> nat \<Rightarrow> nat" where
  "round_half_even num den =
     (let q = num div den; r = num mod den
      in if 2 * r < den then q else if den < 2 * r then q + 1 else q + q mod 2)"

function shift_left :: "nat \<Rightarrow> nat \<Rightarrow> nat \<Rightarrow> nat" where
  "shift_left x y n =
     (if n < 1074 \<and> x * 2 ^ n < y * 2 ^ 52 then shift_left x y (n + 1) else n)"
  by pat_completeness auto
termination
  by (relation "measure (\<lambda>(x, y, n). 1074 - n)") auto

function shift_right :: "nat \<Rightarrow> nat \<Rightarrow> nat \<Rightarrow> nat" where
  "shift_right x y n =
     (if n < 972 \<and> y * 2 ^ (53 + n) \<le> x then shift_right x y (n + 1) else n)"
  by pat_completeness auto
termination
  by (relation "measure (\<lambda>(x, y, n). 972 - n)") auto

definition true_div :: "int \<Rightarrow> nat \<Rightarrow> error + real" where
  "true_div a b =
     (if b = 0 then Inl ZeroDivisionError
      else (let x = nat \<bar>a\<bar>;
                v = (if x < b * 2 ^ 53
                     then (let n = shift_left x b 0
                           in real (round_half_even (x * 2 ^ n) b) / 2 ^ n)
                     else (let n = shift_right x b 0
                           in real (round_half_even x (b * 2 ^ n)) * 2 ^ n))
            in if 2 ^ 1024 \<le> v then Inl OverflowError
               else Inr (if a < 0 then - v else v)))"

text \<open>
  Lines 157-221, \<open>epoch_steps\<close> being \<open>len(train_dataloader)\<close>. \<open>math.ceil\<close> of a double is
  its ceiling; \<open>range\<close> of a number below one is empty.
\<close>

definition training_loop :: "env \<Rightarrow> args \<Rightarrow> inputs \<Rightarrow> nat \<Rightarrow> (error + nat) \<times> event list" where
  "training_loop env a inp epoch_steps =
     (case true_div (a_train_steps a) epoch_steps of
        Inl e \<Rightarrow> (Inl e, [])
      | Inr quot \<Rightarrow>
          (let num_epochs = \<lceil>quot\<rceil>
           in epoch_loop env a inp epoch_steps [0..<nat num_epochs] 0))"

text \<open>Lines 223-228.\<close>

definition final_save :: "args \<Rightarrow> event" where
  "final_save a = (if a_type a = Text then SaveEmbeds None else SaveDelta None False)"

text \<open>Lines 157-228: the loop, and the final checkpoint when the loop returns.\<close>

definition train_and_save :: "env \<Rightarrow> args \<Rightarrow> inputs \<Rightarrow> nat \<Rightarrow> (error + unit) \<times> event list" where
  "train_and_save env a inp epoch_steps =
     (case training_loop env a inp epoch_steps of
        (Inl e, evs) \<Rightarrow> (Inl e, evs)
      | (Inr g, evs) \<Rightarrow> (Inr (), evs @ [final_save a]))"

text \<open>
  \<open>main\<close>: the result of the run and the calls made until it ended. The data loader is
  made at line 115, the optimizer at line 127; line 150 loads the second backbone in
  custom mode only.
\<close>

definition main :: "env \<Rightarrow> args \<Rightarrow> (error + unit) \<times> event list" where
  "main env a =
     (case load_models env a of
        (Inl e, ev1) \<Rightarrow> (Inl e, ev1)
      | (Inr tok, ev1) \<Rightarrow>
     (case parse_inputs a of
        Inl e \<Rightarrow> (Inl e, ev1)
      | Inr inp \<Rightarrow>
     (let pairs = zip (p_mod_tokens inp) (p_init_tokens inp);
          ev2 = ev1 @ add_tokens_calls (encode env) tok pairs
      in case prepare_tokens (encode env) tok pairs [] [] of
        Inl e \<Rightarrow> (Inl e, ev2)
      | Inr (tok1, mod_tokens_id, init_tokens_id) \<Rightarrow>
     (case DataLoader (len_train_dataset env) (a_batch_size a) of
        Inl e \<Rightarrow> (Inl e, ev2)
      | Inr epoch_steps \<Rightarrow>
     (case optimization a (p_with_prior inp) of
        (optimizer_lr, a1) \<Rightarrow>
     (let ev3 = ev2 @ [NewAdamW optimizer_lr]
      in if a_type a = Text
         then (case train_and_save env a1 inp epoch_steps of (r, ev5) \<Rightarrow> (r, ev3 @ ev5))
         else if load_ok env UNet0
         then (case train_and_save env a1 inp epoch_steps of
                 (r, ev5) \<Rightarrow> (r, ev3 @ [Load UNet0] @ ev5))
         else (Inl LoadError, ev3)))))))"

text \<open>
  A small environment for the worked examples: every component loads, no file exists, the
  tokenizer has two entries, the encoding is never empty, the dataset has three items, and
  the sampling pipeline returns for every prompt or for none. In \<open>resumed_env\<close> every file
  exists.
\<close>

definition small_env :: "bool \<Rightarrow> env" where
  "small_env ok =
     \<lparr>load_ok = (\<lambda>_. True), isfile = (\<lambda>_. False), load_delta_ok = True,
      pretrained_tokenizer = \<lparr>vocab = [''cat'', ''dog''], unk_token_id = 0\<rparr>,
      resumed_tokenizer = \<lparr>vocab = [''cat'', ''dog''], unk_token_id = 0\<rparr>,
      encode = (\<lambda>v s. [0]), len_train_dataset = 3, pipetest_ok = (\<lambda>g p. ok)\<rparr>"

definition resumed_env :: env where
  "resumed_env = (small_env True)\<lparr>isfile := (\<lambda>_. True)\<rparr>"

text \<open>The global steps reached and the epochs entered, read off the calls of a run.\<close>

fun opt_steps :: "event list \<Rightarrow> nat list" where
  "opt_steps [] = []"
| "opt_steps (OptStep g # evs) = g # opt_steps evs"
| "opt_steps (_ # evs) = opt_steps evs"

fun epochs_run :: "event list \<Rightarrow> nat list" where
  "epochs_run [] = []"
| "epochs_run (TrainMode e # evs) = e # epochs_run evs"
| "epochs_run (_ # evs) = epochs_run evs"

declare shift_left.simps [simp del] shift_right.simps [simp del]

section \<open>Properties\<close>

subsection \<open>Gradient masking\<close>

lemma length_arange_ne: "length (arange_ne n k) = n"
  by (simp add: arange_ne_def)

lemma index_no_updates_loop_char:
  "length acc = n \<Longrightarrow>
   index_no_updates_loop n ids is acc =
     map (\<lambda>j. acc ! j \<and> j \<notin> (\<lambda>i. ids ! i) ` set is) [0..<n]"
proof (induction "is" arbitrary: acc)
  case Nil
  then show ?case by (auto simp: map_nth)
next
  case (Cons i "is")
  have len: "length (map2 (\<and>) acc (arange_ne n (ids ! i))) = n"
    using Cons.prems by (simp add: length_arange_ne)
  have "index_no_updates_loop n ids (i # is) acc =
        map (\<lambda>j. map2 (\<and>) acc (arange_ne n (ids ! i)) ! j \<and> j \<notin> (\<lambda>i. ids ! i) ` set is) [0..<n]"
    by (simp add: Cons.IH [OF len])
  also have "\<dots> = map (\<lambda>j. acc ! j \<and> j \<notin> (\<lambda>i. ids ! i) ` set (i # is)) [0..<n]"
    using Cons.prems by (auto simp: arange_ne_def)
  finally show ?case .
qed

text \<open>
  The rows the mask leaves alone are those of the first token id and of
  \<open>mod_tokens_id[0 .. len - 2]\<close>: the last id of a list of two or more is not among them.
\<close>

lemma index_no_updates_char:
  "index_no_updates n (id0 # rest) =
     Inr (map (\<lambda>j. j \<notin> set (id0 # butlast rest)) [0..<n])"
proof -
  have img: "(\<lambda>i. (id0 # rest) ! i) ` set [0..<length rest] = set (butlast (id0 # rest))"
  proof -
    have "butlast (id0 # rest) = take (length rest) (id0 # rest)"
      by (simp add: butlast_conv_take)
    also have "set \<dots> = (\<lambda>i. (id0 # rest) ! i) ` {0..<length rest}"
      by (simp add: nth_image)
    finally show ?thesis by simp
  qed
  have "index_no_updates_loop n (id0 # rest) [0..<length rest] (arange_ne n id0) =
        map (\<lambda>j. arange_ne n id0 ! j \<and> j \<notin> set (butlast (id0 # rest))) [0..<n]"
    using index_no_updates_loop_char [OF length_arange_ne, of n "id0 # rest" "[0..<length rest]" id0]
    by (simp only: img)
  also have "\<dots> = map (\<lambda>j. j \<notin> set (id0 # butlast rest)) [0..<n]"
    by (auto simp: arange_ne_def)
  finally show ?thesis by (simp add: index_no_updates_def)
qed

text \<open>
  C2. The claim: every row outside the new-token ids is zeroed and the row of every
  new-token id is left as it is. The code evaluated on a vocabulary of four entries with
  the new-token ids 2 and 3: row 2 is kept, row 3, the last new token, is zeroed with the
  pretrained rows.
\<close>

theorem mask_grads_zeroes_last_token:
  "mask_grads 4 [2, 3] [[1], [2], [3], [4]] = Inr [[0], [0], [3], [0]]"
  by (simp add: mask_grads_def index_no_updates_def arange_ne_def fill_rows_def upt_rec)


text \<open>
  What of the masking does hold: the gradient row of every id that is not a new-token id is
  zero after the masking, whatever the backward pass left there.
\<close>

lemma mask_grads_pretrained_rows:
  assumes "mask_grads n ids grads = Inr g" and "j < n" and "j \<notin> set ids"
  shows "g ! j = map (\<lambda>_. 0) (grads ! j)"
proof -
  obtain id0 rest where ids: "ids = id0 # rest"
    using assms(1) by (cases ids) (auto simp: mask_grads_def index_no_updates_def)
  have sub: "set (id0 # butlast rest) \<subseteq> set ids"
    unfolding ids by (auto dest: in_set_butlastD)
  have len: "length grads = n"
    using assms(1) unfolding ids mask_grads_def index_no_updates_char fill_rows_def
    by (simp split: if_splits)
  have "g = map2 (\<lambda>b row. if b then map (\<lambda>_. 0) row else row)
              (map (\<lambda>j. j \<notin> set (id0 # butlast rest)) [0..<n]) grads"
    using assms(1) unfolding ids mask_grads_def index_no_updates_char fill_rows_def
    by (simp split: if_splits)
  then show ?thesis using assms(2,3) sub len by auto
qed

subsection \<open>The optimizer step\<close>

text \<open>
  An element whose gradient and moment estimates are zero is still multiplied by
  \<open>1 - lr * weight_decay\<close>, and its moment estimates stay zero.
\<close>

lemma adamw_elem_zero_grad:
  "adamw_elem opt t p 0 0 0 = (p * (1 - opt_lr opt * weight_decay opt), 0, 0)"
  by (simp add: adamw_elem_def)

text \<open>
  C1. The claim: the optimizer step after the masking leaves every row that is not a
  new-token row as it was. The code evaluated on three rows with the new-token id 2, the
  default learning rate and the optimizer of line 127, at its first step: the gradient of
  the pretrained row 0 is masked to zero, and the weight decay 0.01 that line 127 passes
  to the optimizer takes the row from 1 to 1 - 1e-7.
\<close>

theorem pretrained_row_decays_under_adamw:
  "map_sum id (\<lambda>s. fst s ! 0)
     (train_step 3 [2] [[5], [7], [3]] ([[1], [2], [4]], AdamW (1 / 10 ^ 5) [[1], [2], [4]]))
   = Inr [9999999 / 10000000]"
  by (simp add: train_step_def mask_grads_def index_no_updates_def arange_ne_def fill_rows_def
      upt_rec adamw_step_def adamw_row_def adamw_elem_def AdamW_def zeros_like_def Let_def)

subsection \<open>Learning-rate scaling\<close>

text \<open>
  C3. The claim: with scaling enabled the optimizer is constructed with the learning rate
  multiplied by the batch size. The code evaluated at the defaults with batch size 4: the
  optimizer is constructed with 1e-5, and \<open>a.lr\<close> becomes 4e-5 afterwards, when no one
  reads it any more.
\<close>

theorem optimizer_built_with_unscaled_lr:
  "optimization (default_args\<lparr>a_batch_size := 4\<rparr>) False =
     (1 / 10 ^ 5, default_args\<lparr>a_batch_size := 4, a_lr := 4 / 10 ^ 5\<rparr>)"
  by (simp add: optimization_def default_args_def)

subsection \<open>The loss\<close>








subsection \<open>Tokens\<close>

lemma index_of_Some: "index_of t xs = Some i \<Longrightarrow> i < length xs \<and> xs ! i = t"
  by (induction xs arbitrary: i) (auto split: if_splits option.splits)

lemma index_of_mem: "t \<in> set xs \<Longrightarrow> \<exists>i. index_of t xs = Some i"
  by (induction xs) auto

lemma index_of_append: "index_of t xs = Some i \<Longrightarrow> index_of t (xs @ ys) = Some i"
  by (induction xs arbitrary: i) (auto split: if_splits option.splits)

lemma add_tokens_vocab:
  "set (vocab (snd (add_tokens tok t))) = insert t (set (vocab tok))"
  by (auto simp: add_tokens_def)

lemma add_tokens_prefix: "\<exists>ys. vocab (snd (add_tokens tok t)) = vocab tok @ ys"
  by (simp add: add_tokens_def)

text \<open>
  The loop of lines 90-93, when it does not raise: the vocabulary gains the modifier
  tokens of the pairs and nothing else, at its end, and the id appended for a pair is the
  position of its modifier token in the final vocabulary.
\<close>

lemma prepare_tokens_char:
  "prepare_tokens enc tok ps mids iids = Inr (tok1, ids, iids1) \<Longrightarrow>
     set (vocab tok1) = set (vocab tok) \<union> fst ` set ps \<and>
     (\<exists>ys. vocab tok1 = vocab tok @ ys) \<and>
     (\<exists>new. ids = mids @ new \<and> length new = length ps \<and>
        (\<forall>k < length ps. index_of (fst (ps ! k)) (vocab tok1) = Some (new ! k)))"
proof (induction enc tok ps mids iids rule: prepare_tokens.induct)
  case (1 enc tok mids iids)
  then show ?case by simp
next
  case (2 enc tok mod_token init_token rest mids iids)
  obtain n t1 where at: "add_tokens tok mod_token = (n, t1)"
    by (cases "add_tokens tok mod_token")
  obtain i0 is0 where en: "enc (vocab t1) init_token = i0 # is0"
    using "2.prems" at by (cases "enc (vocab t1) init_token") (auto simp: Let_def)
  let ?nid = "convert_tokens_to_ids t1 mod_token"
  have rec: "prepare_tokens enc t1 rest (mids @ [?nid]) (iids @ [i0]) = Inr (tok1, ids, iids1)"
    using "2.prems" at en by (simp add: Let_def)
  have IH: "set (vocab tok1) = set (vocab t1) \<union> fst ` set rest \<and>
     (\<exists>ys. vocab tok1 = vocab t1 @ ys) \<and>
     (\<exists>new. ids = (mids @ [?nid]) @ new \<and> length new = length rest \<and>
        (\<forall>k < length rest. index_of (fst (rest ! k)) (vocab tok1) = Some (new ! k)))"
    using "2.IH" [OF at [symmetric] refl refl en rec] .
  have t1: "t1 = snd (add_tokens tok mod_token)" using at by simp
  have v1: "set (vocab t1) = insert mod_token (set (vocab tok))"
    unfolding t1 by (rule add_tokens_vocab)
  obtain ys0 where p0: "vocab t1 = vocab tok @ ys0"
    using add_tokens_prefix [of tok mod_token] t1 by auto
  obtain ys1 where p1: "vocab tok1 = vocab t1 @ ys1" using IH by auto
  obtain new where new: "ids = (mids @ [?nid]) @ new" "length new = length rest"
     "\<forall>k < length rest. index_of (fst (rest ! k)) (vocab tok1) = Some (new ! k)"
    using IH by auto
  have "mod_token \<in> set (vocab t1)" using v1 by simp
  then obtain j where j: "index_of mod_token (vocab t1) = Some j"
    using index_of_mem by fastforce
  have nid: "?nid = j" using j by (simp add: convert_tokens_to_ids_def)
  have j1: "index_of mod_token (vocab tok1) = Some j" using j p1 by (simp add: index_of_append)
  have A: "set (vocab tok1) = set (vocab tok) \<union> fst ` set ((mod_token, init_token) # rest)"
    using IH v1 by auto
  have B: "\<exists>ys. vocab tok1 = vocab tok @ ys" using p0 p1 by simp
  have C: "\<exists>new'. ids = mids @ new' \<and> length new' = length ((mod_token, init_token) # rest) \<and>
        (\<forall>k < length ((mod_token, init_token) # rest).
           index_of (fst (((mod_token, init_token) # rest) ! k)) (vocab tok1) = Some (new' ! k))"
  proof (intro exI [of _ "j # new"] conjI allI impI)
    show "ids = mids @ j # new" using new(1) nid by simp
    show "length (j # new) = length ((mod_token, init_token) # rest)" using new(2) by simp
    fix k assume "k < length ((mod_token, init_token) # rest)"
    then show "index_of (fst (((mod_token, init_token) # rest) ! k)) (vocab tok1)
               = Some ((j # new) ! k)"
      using j1 new(3) by (cases k) auto
  qed
  show ?case using A B C by blast
qed

lemma parse_inputs_Inr:
  "parse_inputs a = Inr inp \<Longrightarrow>
     \<exists>tk. a_token a = Some tk \<and> p_mod_tokens inp = map angle (split_plus tk) \<and>
       length (p_mod_tokens inp) = length (p_init_tokens inp)"
  by (auto simp: parse_inputs_def Let_def split: option.splits if_splits)

text \<open>
  C10. When the inputs parse and the token loop returns, the modifier tokens are the
  pieces of \<open>--token\<close> in angle brackets, the vocabulary has gained exactly these strings,
  and the id recorded for the \<open>k\<close>-th piece \<open>t\<close> is the id of the entry \<open><t>\<close>.
\<close>

theorem registered_token_is_bracketed:
  assumes "a_token a = Some tk"
      and "parse_inputs a = Inr inp"
      and "prepare_tokens enc tok (zip (p_mod_tokens inp) (p_init_tokens inp)) [] [] =
             Inr (tok1, mod_tokens_id, init_tokens_id)"
  shows "p_mod_tokens inp = map angle (split_plus tk)
       \<and> set (vocab tok1) = set (vocab tok) \<union> angle ` set (split_plus tk)
       \<and> length mod_tokens_id = length (split_plus tk)
       \<and> (\<forall>k < length (split_plus tk).
            mod_tokens_id ! k < length (vocab tok1) \<and>
            vocab tok1 ! (mod_tokens_id ! k) = angle (split_plus tk ! k))"
proof -
  let ?ps = "zip (p_mod_tokens inp) (p_init_tokens inp)"
  have pm: "p_mod_tokens inp = map angle (split_plus tk)"
    and len: "length (p_mod_tokens inp) = length (p_init_tokens inp)"
    using parse_inputs_Inr [OF assms(2)] assms(1) by auto
  have mf: "map fst ?ps = p_mod_tokens inp" using len by simp
  have lps: "length ?ps = length (split_plus tk)" using len pm by simp
  note ch = prepare_tokens_char [OF assms(3)]
  have F: "fst ` set ?ps = set (p_mod_tokens inp)"
    using arg_cong [OF mf, of set] by simp
  have S0: "set (vocab tok1) = set (vocab tok) \<union> fst ` set ?ps" using ch by blast
  have S: "set (vocab tok1) = set (vocab tok) \<union> angle ` set (split_plus tk)"
    by (simp only: S0 F) (simp add: pm)
  obtain new where new: "mod_tokens_id = [] @ new" "length new = length ?ps"
     "\<forall>k < length ?ps. index_of (fst (?ps ! k)) (vocab tok1) = Some (new ! k)"
    using ch by blast
  have I: "\<forall>k < length (split_plus tk).
            mod_tokens_id ! k < length (vocab tok1) \<and>
            vocab tok1 ! (mod_tokens_id ! k) = angle (split_plus tk ! k)"
  proof (intro allI impI)
    fix k assume k: "k < length (split_plus tk)"
    have kk: "k < length ?ps" using k unfolding lps .
    have "index_of (fst (?ps ! k)) (vocab tok1) = Some (new ! k)" using new(3) kk by blast
    moreover have "fst (?ps ! k) = angle (split_plus tk ! k)"
      using k kk pm by simp
    ultimately show "mod_tokens_id ! k < length (vocab tok1) \<and>
            vocab tok1 ! (mod_tokens_id ! k) = angle (split_plus tk ! k)"
      using index_of_Some new(1) by fastforce
  qed
  show ?thesis using pm S new(1,2) lps I by simp
qed

text \<open>
  C8. The claim: a modifier token that is already an entry of the vocabulary makes the
  step fail. The code evaluated at \<open>--token |startoftext| --term cat\<close> on a vocabulary that
  has the entry \<open><|startoftext|>\<close>, as the pretrained one has: line 79 makes the modifier
  token \<open><|startoftext|>\<close>, \<open>add_tokens\<close> adds nothing, the loop returns, and the id 1 of the
  existing entry is recorded as the new-token id, the one whose row the training changes.
\<close>

theorem existing_token_accepted_example:
  "prepare_tokens (encode (small_env True))
     \<lparr>vocab = [''cat'', ''<|startoftext|>'', ''<|endoftext|>''], unk_token_id = 2\<rparr>
     (zip (map angle (split_plus ''|startoftext|'')) (split_plus ''cat'')) [] []
   = Inr (\<lparr>vocab = [''cat'', ''<|startoftext|>'', ''<|endoftext|>''], unk_token_id = 2\<rparr>,
          [1], [0])"
  by (simp add: add_tokens_def convert_tokens_to_ids_def small_env_def split_plus_def angle_def)

text \<open>
  C10, at \<open>--token a+b --term cat+dog --data d1+d2\<close> and the vocabulary \<open>cat\<close>, \<open>dog\<close>: the
  entries with the recorded ids 2 and 3 are \<open><a>\<close> and \<open><b>\<close>.
\<close>

theorem registered_token_is_bracketed_witness:
  "prepare_tokens (encode (small_env True)) (pretrained_tokenizer (small_env True))
     (zip [''<a>'', ''<b>''] [''cat'', ''dog'']) [] []
   = Inr (\<lparr>vocab = [''cat'', ''dog'', ''<a>'', ''<b>''], unk_token_id = 0\<rparr>, [2, 3], [0, 0])
   \<and> [''cat'', ''dog'', ''<a>'', ''<b>''] ! 2 = angle (split_plus ''a+b'' ! 0)
   \<and> [''cat'', ''dog'', ''<a>'', ''<b>''] ! 3 = angle (split_plus ''a+b'' ! 1)"
proof -
  let ?a = "default_args\<lparr>a_token := Some ''a+b'', a_term := Some ''cat+dog'',
              a_data := Some ''d1+d2''\<rparr>"
  let ?inp = "\<lparr>p_with_prior = False, p_mod_tokens = [''<a>'', ''<b>''],
               p_init_tokens = [''cat'', ''dog''], p_data_dirs = [''d1'', ''d2''],
               p_term_data_dirs = None\<rparr>"
  let ?tok1 = "\<lparr>vocab = [''cat'', ''dog'', ''<a>'', ''<b>''], unk_token_id = 0\<rparr>"
  have h1: "a_token ?a = Some ''a+b''" by simp
  have h2: "parse_inputs ?a = Inr ?inp"
    by (simp add: parse_inputs_def default_args_def split_plus_def angle_def)
  have h3: "prepare_tokens (encode (small_env True)) (pretrained_tokenizer (small_env True))
              (zip (p_mod_tokens ?inp) (p_init_tokens ?inp)) [] []
            = Inr (?tok1, [2, 3], [0, 0])"
    by (simp add: add_tokens_def convert_tokens_to_ids_def small_env_def)
  have sp: "length (split_plus ''a+b'') = 2" by (simp add: split_plus_def)
  note I = conjunct2 [OF conjunct2 [OF conjunct2 [OF registered_token_is_bracketed [OF h1 h2 h3]]],
      unfolded sp, rule_format]
  have k0: "(0::nat) < 2" and k1: "(1::nat) < 2" by simp_all
  have c1: "prepare_tokens (encode (small_env True)) (pretrained_tokenizer (small_env True))
              (zip [''<a>'', ''<b>''] [''cat'', ''dog'']) [] [] = Inr (?tok1, [2, 3], [0, 0])"
    using h3 by simp
  have c2: "[''cat'', ''dog'', ''<a>'', ''<b>''] ! 2 = angle (split_plus ''a+b'' ! 0)"
    using I [OF k0] by simp
  have c3: "[''cat'', ''dog'', ''<a>'', ''<b>''] ! 3 = angle (split_plus ''a+b'' ! 1)"
    using I [OF k1] by simp
  show ?thesis using c1 c2 c3 by (intro conjI)
qed

subsection \<open>The order of loading and checking\<close>

lemma from_pretrained_all:
  "\<forall>c\<in>set cs. load_ok env c \<Longrightarrow> from_pretrained env cs = (Inr (), map Load cs)"
  by (induction cs) simp_all

text \<open>
  C4. The claim: lists of unequal lengths make the program fail before any pretrained
  component is loaded. The code evaluated at \<open>--token a+b --term cat --data d\<close>: the
  assertion fails, after the five components have been loaded.
\<close>

theorem mismatch_fails_after_loading_example:
  "main (small_env True)
     (default_args\<lparr>a_token := Some ''a+b'', a_term := Some ''cat'', a_data := Some ''d''\<rparr>)
   = (Inl (AssertionError assert_msg),
      [Load TextEncoder, Load Tokenizer, Load UNet, Load VAE, Load Scheduler])"
  by (simp add: main_def load_models_def resume_path_def parse_inputs_def default_args_def
      split_plus_def angle_def small_env_def)

text \<open>
  C4, as the code has it: when the five pretrained components load (and \<open>load_delta\<close>
  returns, where a delta checkpoint is resumed) and the token, term and data lists (or the
  token list and the prior-directory list, when there is one) have unequal lengths, the
  run ends with the assertion's message, and the calls made until then are the five loads,
  followed by the call of \<open>load_delta\<close> where a checkpoint is resumed, and nothing else:
  no call of \<open>add_tokens\<close> by \<open>main\<close>, no optimizer, no training step.
\<close>

theorem mismatch_fails_after_loading:
  assumes "\<forall>c\<in>set [TextEncoder, Tokenizer, UNet, VAE, Scheduler]. load_ok env c"
      and "resume_path env a \<noteq> None \<longrightarrow> load_delta_ok env"
      and "a_token a = Some tk" and "a_term a = Some tm" and "a_data a = Some d"
      and "length (split_plus tk) \<noteq> length (split_plus tm)
           \<or> length (split_plus tm) \<noteq> length (split_plus d)
           \<or> (\<exists>td. a_term_data a = Some td \<and> length (split_plus tk) \<noteq> length (split_plus td))"
  shows "main env a =
           (Inl (AssertionError assert_msg),
            [Load TextEncoder, Load Tokenizer, Load UNet, Load VAE, Load Scheduler] @
            (case resume_path env a of None \<Rightarrow> [] | Some path \<Rightarrow> [LoadDelta path]))"
proof -
  have p: "parse_inputs a = Inl (AssertionError assert_msg)"
    using assms(3-6) by (auto simp: parse_inputs_def Let_def)
  have f: "from_pretrained env [TextEncoder, Tokenizer, UNet, VAE, Scheduler] =
      (Inr (), map Load [TextEncoder, Tokenizer, UNet, VAE, Scheduler])"
    by (rule from_pretrained_all [OF assms(1)])
  have "\<exists>tok. load_models env a =
      (Inr tok, [Load TextEncoder, Load Tokenizer, Load UNet, Load VAE, Load Scheduler] @
                (case resume_path env a of None \<Rightarrow> [] | Some path \<Rightarrow> [LoadDelta path]))"
    using assms(2) unfolding load_models_def f by (cases "resume_path env a") simp_all
  then obtain tok where l: "load_models env a =
      (Inr tok, [Load TextEncoder, Load Tokenizer, Load UNet, Load VAE, Load Scheduler] @
                (case resume_path env a of None \<Rightarrow> [] | Some path \<Rightarrow> [LoadDelta path]))"
    by blast
  show ?thesis unfolding main_def l using p by simp
qed

text \<open>
  C4, at \<open>--token a --term cat --data d --term_data p1+p2 --delta_ckpt delta.ckpt\<close>, the
  checkpoint being there: one token, two prior directories; the assertion fails after
  the five loads and \<open>load_delta\<close>.
\<close>

theorem mismatch_fails_after_loading_witness:
  "main resumed_env
     (default_args\<lparr>a_token := Some ''a'', a_term := Some ''cat'', a_data := Some ''d'',
        a_term_data := Some ''p1+p2'', a_delta_ckpt := Some ''delta.ckpt''\<rparr>)
   = (Inl (AssertionError assert_msg),
      [Load TextEncoder, Load Tokenizer, Load UNet, Load VAE, Load Scheduler,
       LoadDelta ''delta.ckpt''])"
proof -
  let ?a = "default_args\<lparr>a_token := Some ''a'', a_term := Some ''cat'', a_data := Some ''d'',
             a_term_data := Some ''p1+p2'', a_delta_ckpt := Some ''delta.ckpt''\<rparr>"
  have rp: "resume_path resumed_env ?a = Some ''delta.ckpt''"
    by (simp add: resume_path_def resumed_env_def small_env_def default_args_def)
  have h1: "\<forall>c\<in>set [TextEncoder, Tokenizer, UNet, VAE, Scheduler]. load_ok resumed_env c"
    by (simp add: resumed_env_def small_env_def)
  have h2: "resume_path resumed_env ?a \<noteq> None \<longrightarrow> load_delta_ok resumed_env"
    by (simp add: resumed_env_def small_env_def)
  have h3: "a_token ?a = Some ''a''" by simp
  have h4: "a_term ?a = Some ''cat''" by simp
  have h5: "a_data ?a = Some ''d''" by simp
  have h6: "length (split_plus ''a'') \<noteq> length (split_plus ''cat'')
           \<or> length (split_plus ''cat'') \<noteq> length (split_plus ''d'')
           \<or> (\<exists>td. a_term_data ?a = Some td \<and> length (split_plus ''a'') \<noteq> length (split_plus td))"
    by (simp add: split_plus_def)
  show ?thesis using mismatch_fails_after_loading [OF h1 h2 h3 h4 h5 h6] unfolding rp by simp
qed

subsection \<open>Checkpoints and samples\<close>

lemma upt_zero_numeral: "[0..<numeral k] = [0..<pred_numeral k] @ [pred_numeral k]"
  by (simp add: numeral_eq_Suc)

lemma batch_loop_numeral:
  "batch_loop env a inp (numeral k) global_step =
     (case save_and_sample env a inp (global_step + 1) of
        (Inl e, evs) \<Rightarrow> (Inl e, OptStep (global_step + 1) # evs)
      | (Inr _, evs) \<Rightarrow>
          if a_train_steps a \<le> int (global_step + 1)
          then (Inr (global_step + 1), OptStep (global_step + 1) # evs)
          else (case batch_loop env a inp (pred_numeral k) (global_step + 1) of
                  (r, evs') \<Rightarrow> (r, OptStep (global_step + 1) # evs @ evs')))"
  by (simp add: numeral_eq_Suc)

text \<open>
  C5. The claim: in custom mode every delta checkpoint, the final one too, is computed
  against the second copy of the backbone. The code evaluated on a custom-mode run of two
  steps that saves at step 2: the periodic call of \<open>save_delta\<close> passes \<open>unet0\<close>, the final
  call does not.
\<close>

theorem final_save_delta_without_unet0:
  "main (small_env True)
     (default_args\<lparr>a_token := Some ''a'', a_term := Some ''cat'', a_data := Some ''d'',
        a_train_steps := 2, a_save_step := 2\<rparr>)
   = (Inr (),
      [Load TextEncoder, Load Tokenizer, Load UNet, Load VAE, Load Scheduler,
       AddTokens ''<a>'', NewAdamW (1 / 10 ^ 5), Load UNet0, TrainMode 0, OptStep 1, OptStep 2,
       SaveDelta (Some 2) True, Pipetest 2 ''photo of <a> cat'', SaveImage 2 ''a'',
       SaveDelta None False])"
  by (simp add: main_def load_models_def resume_path_def parse_inputs_def default_args_def
      split_plus_def angle_def add_tokens_def convert_tokens_to_ids_def DataLoader_def
      optimization_def train_and_save_def training_loop_def true_div_def shift_left.simps
      round_half_even_def save_and_sample_def final_save_def small_env_def batch_loop_numeral
      Let_def)

lemma last_append_mem: "e \<in> set ys \<Longrightarrow> last (xs @ ys) = last ys"
  by (cases ys) auto

lemma test_sample_failure:
  "Pipetest g p \<in> set (snd (test_sample env g0 ps)) \<Longrightarrow> \<not> pipetest_ok env g p \<Longrightarrow>
     fst (test_sample env g0 ps) = Inl SampleError \<and> last (snd (test_sample env g0 ps)) = Pipetest g p"
proof (induction ps)
  case Nil
  then show ?case by simp
next
  case (Cons mi rest)
  obtain m i where mi: "mi = (m, i)" by (cases mi)
  let ?q = "''photo of '' @ m @ '' '' @ i"
  show ?case
  proof (cases "pipetest_ok env g0 ?q")
    case True
    obtain r evs where rec: "test_sample env g0 rest = (r, evs)" by (cases "test_sample env g0 rest")
    have X: "test_sample env g0 (mi # rest) = (r, Pipetest g0 ?q # SaveImage g0 (butlast (tl m)) # evs)"
      using True rec mi by (simp add: Let_def)
    have "Pipetest g p \<in> set evs" using Cons.prems True X by auto
    then have "r = Inl SampleError \<and> last evs = Pipetest g p \<and> evs \<noteq> []"
      using Cons.IH Cons.prems(2) rec by auto
    then show ?thesis using X by simp
  next
    case False
    then have X: "test_sample env g0 (mi # rest) = (Inl SampleError, [Pipetest g0 ?q])"
      using mi by (simp add: Let_def)
    then show ?thesis using Cons.prems by simp
  qed
qed

lemma save_and_sample_failure:
  "Pipetest g p \<in> set (snd (save_and_sample env a inp g0)) \<Longrightarrow> \<not> pipetest_ok env g p \<Longrightarrow>
     fst (save_and_sample env a inp g0) = Inl SampleError \<and>
     last (snd (save_and_sample env a inp g0)) = Pipetest g p"
proof -
  assume m: "Pipetest g p \<in> set (snd (save_and_sample env a inp g0))" and f: "\<not> pipetest_ok env g p"
  let ?ps = "zip (p_mod_tokens inp) (p_init_tokens inp)"
  obtain r evs where rec: "test_sample env g0 ?ps = (r, evs)" by (cases "test_sample env g0 ?ps")
  have c: "a_save_step a \<noteq> 0" "int g0 mod a_save_step a = 0"
    using m by (auto simp: save_and_sample_def split: if_splits)
  have X: "save_and_sample env a inp g0 =
     (r, (if a_type a = Text then SaveEmbeds (Some g0) else SaveDelta (Some g0) True) # evs)"
    using c rec by (simp add: save_and_sample_def)
  have "Pipetest g p \<in> set evs" using m X by (auto split: if_splits)
  then have "r = Inl SampleError \<and> last evs = Pipetest g p \<and> evs \<noteq> []"
    using test_sample_failure [of g p env g0 ?ps] f rec by auto
  then show ?thesis using X by simp
qed

lemma batch_loop_failure:
  "Pipetest g p \<in> set (snd (batch_loop env a inp k g0)) \<Longrightarrow> \<not> pipetest_ok env g p \<Longrightarrow>
     fst (batch_loop env a inp k g0) = Inl SampleError \<and>
     last (snd (batch_loop env a inp k g0)) = Pipetest g p"
proof (induction k arbitrary: g0)
  case 0
  then show ?case by simp
next
  case (Suc k)
  obtain r evs where s: "save_and_sample env a inp (g0 + 1) = (r, evs)"
    by (cases "save_and_sample env a inp (g0 + 1)")
  note S = save_and_sample_failure [of g p env a inp "g0 + 1", unfolded s fst_conv snd_conv,
      OF _ Suc.prems(2)]
  show ?case
  proof (cases r)
    case (Inl e)
    then have X: "batch_loop env a inp (Suc k) g0 = (Inl e, OptStep (g0 + 1) # evs)"
      using s by simp
    then have "Pipetest g p \<in> set evs" using Suc.prems(1) by simp
    then show ?thesis using S X Inl by (auto simp: last_append_mem)
  next
    case (Inr u)
    have nf: "Pipetest g p \<notin> set evs" using S Inr by auto
    show ?thesis
    proof (cases "a_train_steps a \<le> int (g0 + 1)")
      case True
      then have "batch_loop env a inp (Suc k) g0 = (Inr (g0 + 1), OptStep (g0 + 1) # evs)"
        using s Inr by simp
      then show ?thesis using Suc.prems(1) nf by simp
    next
      case False
      obtain r' evs' where rec: "batch_loop env a inp k (g0 + 1) = (r', evs')"
        by (cases "batch_loop env a inp k (g0 + 1)")
      have X: "batch_loop env a inp (Suc k) g0 = (r', OptStep (g0 + 1) # evs @ evs')"
        using s Inr False rec by simp
      then have mem: "Pipetest g p \<in> set evs'" using Suc.prems(1) nf by simp
      then have "r' = Inl SampleError \<and> last evs' = Pipetest g p"
        using Suc.IH [of "g0 + 1"] Suc.prems(2) rec by simp
      then show ?thesis using X mem by (auto simp: last_append_mem)
    qed
  qed
qed

lemma epoch_loop_failure:
  "Pipetest g p \<in> set (snd (epoch_loop env a inp n es g0)) \<Longrightarrow> \<not> pipetest_ok env g p \<Longrightarrow>
     fst (epoch_loop env a inp n es g0) = Inl SampleError \<and>
     last (snd (epoch_loop env a inp n es g0)) = Pipetest g p"
proof (induction es arbitrary: g0)
  case Nil
  then show ?case by simp
next
  case (Cons e es)
  obtain r evs where s: "batch_loop env a inp n g0 = (r, evs)"
    by (cases "batch_loop env a inp n g0")
  note S = batch_loop_failure [of g p env a inp n g0, unfolded s fst_conv snd_conv,
      OF _ Cons.prems(2)]
  show ?case
  proof (cases r)
    case (Inl x)
    then have X: "epoch_loop env a inp n (e # es) g0 = (Inl x, TrainMode e # evs)"
      using s by simp
    then have "Pipetest g p \<in> set evs" using Cons.prems(1) by simp
    then show ?thesis using S X Inl by (auto simp: last_append_mem)
  next
    case (Inr g1)
    have nf: "Pipetest g p \<notin> set evs" using S Inr by auto
    obtain r' evs' where rec: "epoch_loop env a inp n es g1 = (r', evs')"
      by (cases "epoch_loop env a inp n es g1")
    have X: "epoch_loop env a inp n (e # es) g0 = (r', TrainMode e # evs @ evs')"
      using s Inr rec by simp
    then have mem: "Pipetest g p \<in> set evs'" using Cons.prems(1) nf by simp
    then have "r' = Inl SampleError \<and> last evs' = Pipetest g p"
      using Cons.IH [of g1] Cons.prems(2) rec by simp
    then show ?thesis using X mem by (auto simp: last_append_mem)
  qed
qed

lemma training_loop_failure:
  "Pipetest g p \<in> set (snd (training_loop env a inp n)) \<Longrightarrow> \<not> pipetest_ok env g p \<Longrightarrow>
     fst (training_loop env a inp n) = Inl SampleError \<and>
     last (snd (training_loop env a inp n)) = Pipetest g p"
  using epoch_loop_failure [of g p env a inp n _ 0]
  by (auto simp: training_loop_def Let_def split: sum.splits)

lemma train_and_save_failure:
  assumes "Pipetest g p \<in> set (snd (train_and_save env a inp n))" and "\<not> pipetest_ok env g p"
  shows "fst (train_and_save env a inp n) = Inl SampleError \<and>
         last (snd (train_and_save env a inp n)) = Pipetest g p"
proof -
  obtain r evs where t: "training_loop env a inp n = (r, evs)"
    by (cases "training_loop env a inp n")
  have fs: "final_save a \<noteq> Pipetest g p" by (simp add: final_save_def)
  have mem: "Pipetest g p \<in> set evs"
    using assms(1) fs t by (cases r) (auto simp: train_and_save_def)
  then have "r = Inl SampleError \<and> last evs = Pipetest g p"
    using training_loop_failure [of g p env a inp n] assms(2) t by simp
  then show ?thesis using t by (simp add: train_and_save_def)
qed

lemma from_pretrained_no_pipetest: "Pipetest g p \<notin> set (snd (from_pretrained env cs))"
  by (induction cs) (auto split: prod.splits)

lemma load_models_no_pipetest: "Pipetest g p \<notin> set (snd (load_models env a))"
  using from_pretrained_no_pipetest [of g p env "[TextEncoder, Tokenizer, UNet, VAE, Scheduler]"]
  by (auto simp: load_models_def split: prod.splits sum.splits option.splits if_splits)

lemma add_tokens_calls_no_pipetest: "Pipetest g p \<notin> set (add_tokens_calls enc tok ps)"
proof (induction ps arbitrary: tok)
  case Nil
  then show ?case by simp
next
  case (Cons mi rest)
  obtain m i where mi: "mi = (m, i)" by (cases mi)
  show ?case
    unfolding mi
    by (cases "enc (vocab (snd (add_tokens tok m))) i") (simp_all add: Cons.IH)
qed

text \<open>
  C6. The claim: a failure of the sample generation does not abort the training loop. The
  code evaluated on a run of two steps that saves at every step, with a sampling pipeline
  that raises: the run ends with the failure at step 1; step 2 is not run and no final
  checkpoint is written.
\<close>

theorem sample_failure_ends_run_example:
  "main (small_env False)
     (default_args\<lparr>a_token := Some ''a'', a_term := Some ''cat'', a_data := Some ''d'',
        a_train_steps := 2, a_save_step := 1\<rparr>)
   = (Inl SampleError,
      [Load TextEncoder, Load Tokenizer, Load UNet, Load VAE, Load Scheduler,
       AddTokens ''<a>'', NewAdamW (1 / 10 ^ 5), Load UNet0, TrainMode 0, OptStep 1,
       SaveDelta (Some 1) True, Pipetest 1 ''photo of <a> cat''])"
  by (simp add: main_def load_models_def resume_path_def parse_inputs_def default_args_def
      split_plus_def angle_def add_tokens_def convert_tokens_to_ids_def DataLoader_def
      optimization_def train_and_save_def training_loop_def true_div_def shift_left.simps
      round_half_even_def save_and_sample_def final_save_def small_env_def batch_loop_numeral
      Let_def)

text \<open>
  C6, as the code has it: a call of the sampling pipeline that raises ends the run with
  that failure; the call is the last thing the run does.
\<close>

theorem sample_failure_ends_run:
  assumes "Pipetest g p \<in> set (snd (main env a))" and "\<not> pipetest_ok env g p"
  shows "fst (main env a) = Inl SampleError \<and> last (snd (main env a)) = Pipetest g p"
proof -
  obtain r1 ev1 where l: "load_models env a = (r1, ev1)" by (cases "load_models env a")
  have n1: "Pipetest g p \<notin> set ev1" using load_models_no_pipetest [of g p env a] l by simp
  obtain tok where r1: "r1 = Inr tok" using assms(1) l n1 by (cases r1) (auto simp: main_def)
  obtain inp where pi: "parse_inputs a = Inr inp"
    using assms(1) l n1 r1 by (cases "parse_inputs a") (auto simp: main_def)
  let ?ps = "zip (p_mod_tokens inp) (p_init_tokens inp)"
  let ?ev2 = "ev1 @ add_tokens_calls (encode env) tok ?ps"
  have n2: "Pipetest g p \<notin> set ?ev2" using n1 add_tokens_calls_no_pipetest by simp
  let ?pt = "prepare_tokens (encode env) tok ?ps [] []"
  obtain tok1 ids iids where pt: "?pt = Inr (tok1, ids, iids)"
    using assms(1) l n2 r1 pi by (cases ?pt) (auto simp: main_def Let_def)
  obtain n where dl: "DataLoader (len_train_dataset env) (a_batch_size a) = Inr n"
    using assms(1) l n2 r1 pi pt
    by (cases "DataLoader (len_train_dataset env) (a_batch_size a)") (auto simp: main_def Let_def)
  obtain olr a1 where op: "optimization a (p_with_prior inp) = (olr, a1)"
    by (cases "optimization a (p_with_prior inp)")
  let ?ev3 = "?ev2 @ [NewAdamW olr]"
  have n3: "Pipetest g p \<notin> set ?ev3" using n2 by simp
  have u: "a_type a = Text \<or> load_ok env UNet0"
    using assms(1) l n3 r1 pi pt dl op by (auto simp: main_def Let_def split: if_splits)
  let ?ev4 = "?ev3 @ (if a_type a = Text then [] else [Load UNet0])"
  have n4: "Pipetest g p \<notin> set ?ev4" using n3 by simp
  obtain r5 ev5 where t: "train_and_save env a1 inp n = (r5, ev5)"
    by (cases "train_and_save env a1 inp n")
  have M: "main env a = (r5, ?ev4 @ ev5)"
    using l r1 pi pt dl op t u by (auto simp: main_def Let_def)
  have mem: "Pipetest g p \<in> set ev5" using assms(1) n4 unfolding M by auto
  then have T: "r5 = Inl SampleError \<and> last ev5 = Pipetest g p"
    using train_and_save_failure [of g p env a1 inp n] assms(2) t by simp
  show ?thesis unfolding M using T last_append_mem [OF mem, of ?ev4] by simp
qed

text \<open>C6, on a run of four steps that saves at every second step: it ends at step 2.\<close>

theorem sample_failure_ends_run_witness:
  "fst (main (small_env False)
          (default_args\<lparr>a_token := Some ''a'', a_term := Some ''cat'', a_data := Some ''d'',
             a_train_steps := 4, a_save_step := 2\<rparr>)) = Inl SampleError
   \<and> last (snd (main (small_env False)
          (default_args\<lparr>a_token := Some ''a'', a_term := Some ''cat'', a_data := Some ''d'',
             a_train_steps := 4, a_save_step := 2\<rparr>))) = Pipetest 2 ''photo of <a> cat''"
proof -
  let ?a = "default_args\<lparr>a_token := Some ''a'', a_term := Some ''cat'', a_data := Some ''d'',
             a_train_steps := 4, a_save_step := 2\<rparr>"
  have run: "snd (main (small_env False) ?a) =
      [Load TextEncoder, Load Tokenizer, Load UNet, Load VAE, Load Scheduler,
       AddTokens ''<a>'', NewAdamW (1 / 10 ^ 5), Load UNet0, TrainMode 0, OptStep 1, OptStep 2,
       SaveDelta (Some 2) True, Pipetest 2 ''photo of <a> cat'']"
    by (simp add: main_def load_models_def resume_path_def parse_inputs_def default_args_def
        split_plus_def angle_def add_tokens_def convert_tokens_to_ids_def DataLoader_def
        optimization_def train_and_save_def training_loop_def true_div_def shift_left.simps
        round_half_even_def save_and_sample_def final_save_def small_env_def batch_loop_numeral
        upt_zero_numeral Let_def)
  have h1: "Pipetest 2 ''photo of <a> cat'' \<in> set (snd (main (small_env False) ?a))"
    unfolding run by simp
  have h2: "\<not> pipetest_ok (small_env False) 2 ''photo of <a> cat''"
    by (simp add: small_env_def)
  show ?thesis using sample_failure_ends_run [OF h1 h2] .
qed

subsection \<open>The quotient of line 158\<close>

lemma round_half_even_err:
  assumes "0 < den"
  shows "\<bar>real (round_half_even num den) - real num / real den\<bar> \<le> 1 / 2"
proof -
  define q where "q = num div den"
  define r where "r = num mod den"
  have num: "num = q * den + r" unfolding q_def r_def by simp
  have r: "r < den" unfolding r_def using assms by simp
  have d: "0 < real den" using assms by simp
  have frac: "real num / real den = real q + real r / real den"
    unfolding num using d by (simp add: field_simps)
  have rhe: "round_half_even num den =
      (if 2 * r < den then q else if den < 2 * r then q + 1 else q + q mod 2)"
    unfolding round_half_even_def q_def r_def by (simp add: Let_def)
  consider (lo) "2 * r < den" | (hi) "den < 2 * r" | (tie) "2 * r = den" by linarith
  then show ?thesis
  proof cases
    case lo
    then have "real r / real den \<le> 1 / 2" using d by (simp add: field_simps)
    moreover have "0 \<le> real r / real den" by simp
    ultimately show ?thesis using lo unfolding rhe frac by simp
  next
    case hi
    then have "1 / 2 \<le> real r / real den" using d by (simp add: field_simps)
    moreover have "real r / real den \<le> 1" using r d by (simp add: field_simps)
    ultimately show ?thesis using hi unfolding rhe frac by (simp add: abs_if)
  next
    case tie
    then have h: "real r / real den = 1 / 2" using d by (simp add: field_simps)
    have "q mod 2 = 0 \<or> q mod 2 = 1" by auto
    then show ?thesis using tie unfolding rhe frac h by auto
  qed
qed

lemma round_half_even_exact:
  assumes "0 < den" and "den dvd num"
  shows "round_half_even num den = num div den"
  using assms by (simp add: round_half_even_def Let_def)

lemma shift_left_bound:
  "y * 2 ^ 52 \<le> x * 2 ^ N \<Longrightarrow> n \<le> N \<Longrightarrow> N \<le> 1074 \<Longrightarrow>
     shift_left x y n \<le> N \<and> y * 2 ^ 52 \<le> x * 2 ^ shift_left x y n"
proof (induction x y n rule: shift_left.induct)
  case (1 x y n)
  show ?case
  proof (cases "n < 1074 \<and> x * 2 ^ n < y * 2 ^ 52")
    case True
    then have "n \<noteq> N" using "1.prems"(1) by auto
    then have n1: "n + 1 \<le> N" using "1.prems"(2) by simp
    have sl: "shift_left x y n = shift_left x y (n + 1)"
      by (subst shift_left.simps) (simp only: True if_True simp_thms)
    show ?thesis
      unfolding sl by (rule "1.IH" [OF True "1.prems"(1) n1 "1.prems"(3)])
  next
    case False
    have sl: "shift_left x y n = n"
      by (subst shift_left.simps) (simp only: False if_False)
    have "y * 2 ^ 52 \<le> x * 2 ^ n"
    proof (cases "n < 1074")
      case True
      then show ?thesis using False by simp
    next
      case False
      then have "n = N" using "1.prems"(2,3) by simp
      then show ?thesis using "1.prems"(1) by simp
    qed
    then show ?thesis using sl "1.prems"(2) by simp
  qed
qed

text \<open>
  A positive quotient \<open>x / E\<close> with \<open>x\<close> below \<open>2 ^ 53\<close> is rounded to a double that is
  nearer to it than \<open>1 / E\<close>, and to itself when it is an integer.
\<close>

lemma true_div_near:
  fixes E x :: nat
  assumes "0 < E" and "E \<le> 2 ^ 1022" and "0 < x" and "x < 2 ^ 53"
  defines "n \<equiv> shift_left x E 0"
  defines "v \<equiv> real (round_half_even (x * 2 ^ n) E) / 2 ^ n"
  shows "\<bar>v - real x / real E\<bar> < 1 / real E" and "E dvd x \<Longrightarrow> v = real x / real E"
proof -
  have "E * 2 ^ 52 \<le> 2 ^ 1022 * (2 ^ 52 :: nat)" using assms(2) by (rule mult_le_mono1)
  also have "\<dots> = 1 * 2 ^ 1074" by (simp add: power_add [symmetric])
  also have "\<dots> \<le> x * 2 ^ 1074" using assms(3) by (intro mult_le_mono1) simp
  finally have pre: "E * 2 ^ 52 \<le> x * 2 ^ 1074" .
  have normal: "E * 2 ^ 52 \<le> x * 2 ^ n"
    unfolding n_def using shift_left_bound [OF pre, of 0] by simp
  have a: "x * 2 ^ n < 2 ^ 53 * 2 ^ n" using assms(4) by simp
  have b: "(2::nat) ^ 53 * 2 ^ n = (2 * 2 ^ n) * 2 ^ 52" by simp
  have "E * 2 ^ 52 < (2 * 2 ^ n) * 2 ^ 52"
    using le_less_trans [OF normal a] unfolding b .
  then have En: "E < 2 * 2 ^ n" by (simp only: mult_less_cancel2)
  have E: "0 < real E" using assms(1) by simp
  have "\<bar>real (round_half_even (x * 2 ^ n) E) - real (x * 2 ^ n) / real E\<bar> \<le> 1 / 2"
    by (rule round_half_even_err [OF assms(1)])
  then have "\<bar>real (round_half_even (x * 2 ^ n) E) - real (x * 2 ^ n) / real E\<bar> / 2 ^ n
      \<le> (1 / 2) / 2 ^ n"
    by (rule divide_right_mono) simp
  moreover have "\<bar>real (round_half_even (x * 2 ^ n) E) - real (x * 2 ^ n) / real E\<bar> / 2 ^ n
      = \<bar>v - real x / real E\<bar>"
  proof -
    have "(real (round_half_even (x * 2 ^ n) E) - real (x * 2 ^ n) / real E) / 2 ^ n
        = v - real x / real E"
      unfolding v_def by (simp add: diff_divide_distrib)
    then have "\<bar>v - real x / real E\<bar>
        = \<bar>(real (round_half_even (x * 2 ^ n) E) - real (x * 2 ^ n) / real E) / 2 ^ n\<bar>"
      by (simp only:)
    also have "\<dots> = \<bar>real (round_half_even (x * 2 ^ n) E) - real (x * 2 ^ n) / real E\<bar> / 2 ^ n"
      by simp
    finally show ?thesis by (rule sym)
  qed
  ultimately have err: "\<bar>v - real x / real E\<bar> \<le> 1 / (2 * 2 ^ n)" by simp
  have "real E < 2 * 2 ^ n"
    using En by (metis of_nat_less_iff of_nat_mult of_nat_numeral of_nat_power)
  then have "1 / (2 * 2 ^ n) < 1 / real E" using E by (simp add: field_simps)
  then show "\<bar>v - real x / real E\<bar> < 1 / real E" using err by linarith
  show "v = real x / real E" if d: "E dvd x"
  proof -
    obtain c where c: "x = E * c" using d by (auto simp: dvd_def)
    have "round_half_even (x * 2 ^ n) E = (x * 2 ^ n) div E"
      using d by (intro round_half_even_exact [OF assms(1)]) simp
    also have "\<dots> = c * 2 ^ n" unfolding c using assms(1) by simp
    finally show ?thesis unfolding v_def c using assms(1) by simp
  qed
qed

lemma ceiling_near:
  fixes E x :: nat and v :: real
  assumes "0 < E" and "\<bar>v - real x / real E\<bar> < 1 / real E"
      and "E dvd x \<Longrightarrow> v = real x / real E"
  shows "\<lceil>v\<rceil> = \<lceil>real x / real E\<rceil>"
proof (cases "E dvd x")
  case True
  then show ?thesis using assms(3) by simp
next
  case False
  define q where "q = x div E"
  define r where "r = x mod E"
  have x: "x = q * E + r" unfolding q_def r_def by simp
  have r: "0 < r" "r < E" unfolding r_def using False assms(1) by (auto simp: dvd_eq_mod_eq_0)
  have E: "0 < real E" using assms(1) by simp
  have frac: "real x / real E = real q + real r / real E"
    unfolding x using E by (simp add: field_simps)
  have lo: "1 / real E \<le> real r / real E" using r E by (simp add: field_simps)
  have "r + 1 \<le> E" using r by simp
  then have "real r + 1 \<le> real E" by (metis of_nat_1 of_nat_add of_nat_le_iff)
  then have hi: "real r / real E \<le> 1 - 1 / real E" using E by (simp add: field_simps)
  have c1: "\<lceil>real x / real E\<rceil> = int q + 1"
    unfolding frac using lo hi E by (intro ceiling_unique) (auto simp: field_simps)
  have v1: "real q < v" using assms(2) lo unfolding frac by (simp add: abs_less_iff)
  have v2: "v < real q + 1" using assms(2) hi unfolding frac by (simp add: abs_less_iff)
  have c2: "\<lceil>v\<rceil> = int q + 1" using v1 v2 by (intro ceiling_unique) auto
  show ?thesis using c1 c2 by simp
qed

text \<open>
  For a number of steps below \<open>2 ^ 53\<close> in absolute value, the division of line 158
  returns, and the number of epochs is that of the exact quotient.
\<close>

lemma true_div_ceiling:
  fixes T :: int and E :: nat
  assumes "0 < E" and "E \<le> 2 ^ 1022" and "\<bar>T\<bar> < 2 ^ 53"
  shows "\<exists>v. true_div T E = Inr v \<and> nat \<lceil>v\<rceil> = nat \<lceil>real_of_int T / real E\<rceil>"
proof -
  define x where "x = nat \<bar>T\<bar>"
  define n where "n = shift_left x E 0"
  define v where "v = real (round_half_even (x * 2 ^ n) E) / 2 ^ n"
  have x53: "x < 2 ^ 53" unfolding x_def using assms(3) by (simp add: nat_less_iff)
  have "(2 ^ 53 :: nat) \<le> E * 2 ^ 53" using assms(1) by simp
  then have left: "x < E * 2 ^ 53" using x53 by linarith
  have E: "0 < real E" using assms(1) by simp
  have v0: "0 \<le> v" unfolding v_def by simp
  have bound: "v < 2 ^ 1024 \<and> (0 < x \<longrightarrow> \<lceil>v\<rceil> = \<lceil>real x / real E\<rceil>) \<and> (x = 0 \<longrightarrow> v = 0)"
  proof (cases "0 < x")
    case True
    note f = true_div_near [OF assms(1,2) True x53, folded n_def, folded v_def]
    have E1: "1 \<le> real E" using assms(1) by simp
    have "real x * 1 \<le> real x * real E" by (rule mult_left_mono [OF E1]) simp
    then have "real x / real E \<le> real x" using E by (simp add: field_simps)
    moreover have "1 / real E \<le> 1" using assms(1) by simp
    ultimately have "v < real x + 1" using f(1) by (simp add: abs_less_iff)
    also have "\<dots> = real (x + 1)" by simp
    also have "\<dots> \<le> real (2 ^ 53)"
      using x53 by (intro iffD2 [OF of_nat_le_iff]) simp
    also have "\<dots> = (2 ^ 53 :: real)" by simp
    also have "\<dots> < (2 ^ 1024 :: real)" by (rule power_strict_increasing) simp_all
    finally have "v < 2 ^ 1024" .
    then show ?thesis using True ceiling_near [OF assms(1) f] by simp
  next
    case False
    then have "v = 0" unfolding v_def by (simp add: round_half_even_def)
    then show ?thesis using False by simp
  qed
  have td: "true_div T E = Inr (if T < 0 then - v else v)"
    using assms(1) left bound
    unfolding true_div_def Let_def x_def [symmetric] n_def [symmetric] v_def [symmetric]
    by simp
  show ?thesis
  proof (cases "0 < T")
    case True
    then have "real x = real_of_int T" unfolding x_def by simp
    moreover have "0 < x" using True unfolding x_def by simp
    ultimately show ?thesis using td True bound by simp
  next
    case False
    have "real_of_int T / real E \<le> 0" using False E by (simp add: divide_nonpos_pos)
    then have "\<lceil>real_of_int T / real E\<rceil> \<le> 0" by (simp add: ceiling_le_iff)
    moreover have "\<lceil>if T < 0 then - v else v\<rceil> \<le> 0"
    proof (cases "T < 0")
      case True
      then show ?thesis using v0 by (simp add: ceiling_le_iff)
    next
      case F: False
      then have "x = 0" using False unfolding x_def by simp
      then show ?thesis using bound F by simp
    qed
    ultimately show ?thesis using td by simp
  qed
qed

subsection \<open>The number of steps\<close>

lemma opt_steps_append: "opt_steps (xs @ ys) = opt_steps xs @ opt_steps ys"
  by (induction xs rule: opt_steps.induct) simp_all

lemma epochs_run_append: "epochs_run (xs @ ys) = epochs_run xs @ epochs_run ys"
  by (induction xs rule: epochs_run.induct) simp_all

lemma upt_join: "i \<le> j \<Longrightarrow> j \<le> k \<Longrightarrow> [i..<j] @ [j..<k] = [i..<k]"
  by (metis le_Suc_ex upt_add_eq_append)

lemma test_sample_ok:
  "\<forall>g p. pipetest_ok env g p \<Longrightarrow>
     fst (test_sample env g0 ps) = Inr () \<and> opt_steps (snd (test_sample env g0 ps)) = [] \<and>
     epochs_run (snd (test_sample env g0 ps)) = []"
  by (induction ps) (auto simp: Let_def split: prod.splits)

lemma save_and_sample_ok:
  assumes "\<forall>g p. pipetest_ok env g p" and "a_save_step a \<noteq> 0"
  shows "\<exists>evs. save_and_sample env a inp g0 = (Inr (), evs) \<and> opt_steps evs = [] \<and> epochs_run evs = []"
proof -
  let ?ps = "zip (p_mod_tokens inp) (p_init_tokens inp)"
  obtain r evs where rec: "test_sample env g0 ?ps = (r, evs)" by (cases "test_sample env g0 ?ps")
  have "r = Inr () \<and> opt_steps evs = [] \<and> epochs_run evs = []"
    using test_sample_ok [OF assms(1), of g0 ?ps] rec by simp
  then show ?thesis using assms(2) rec by (simp add: save_and_sample_def)
qed

lemma batch_loop_steps:
  assumes "\<forall>g p. pipetest_ok env g p" and "a_save_step a \<noteq> 0"
  shows "int g0 < a_train_steps a \<Longrightarrow>
     fst (batch_loop env a inp k g0) = Inr (min (g0 + k) (nat (a_train_steps a))) \<and>
     opt_steps (snd (batch_loop env a inp k g0)) = [Suc g0..<Suc (min (g0 + k) (nat (a_train_steps a)))] \<and>
     epochs_run (snd (batch_loop env a inp k g0)) = []"
proof (induction k arbitrary: g0)
  case 0
  then show ?case by simp
next
  case (Suc k)
  obtain evs where s: "save_and_sample env a inp (g0 + 1) = (Inr (), evs)"
     "opt_steps evs = []" "epochs_run evs = []"
    using save_and_sample_ok [OF assms, of inp "g0 + 1"] by blast
  show ?case
  proof (cases "a_train_steps a \<le> int (g0 + 1)")
    case True
    then have T: "nat (a_train_steps a) = g0 + 1" using Suc.prems by linarith
    have "batch_loop env a inp (Suc k) g0 = (Inr (g0 + 1), OptStep (g0 + 1) # evs)"
      using s True by simp
    then show ?thesis using s T by simp
  next
    case False
    then have lt: "int (g0 + 1) < a_train_steps a" by simp
    obtain r' evs' where rec: "batch_loop env a inp k (g0 + 1) = (r', evs')"
      by (cases "batch_loop env a inp k (g0 + 1)")
    have IH: "r' = Inr (min (g0 + 1 + k) (nat (a_train_steps a))) \<and>
        opt_steps evs' = [Suc (g0 + 1)..<Suc (min (g0 + 1 + k) (nat (a_train_steps a)))] \<and>
        epochs_run evs' = []"
      using Suc.IH [OF lt] rec by simp
    have X: "batch_loop env a inp (Suc k) g0 = (r', OptStep (g0 + 1) # evs @ evs')"
      using s False rec by simp
    let ?m = "min (g0 + 1 + k) (nat (a_train_steps a))"
    have le: "Suc g0 < Suc ?m" using lt by simp
    have m: "min (g0 + Suc k) (nat (a_train_steps a)) = ?m" by simp
    have "opt_steps (OptStep (g0 + 1) # evs @ evs') = Suc g0 # [Suc (Suc g0)..<Suc ?m]"
      using IH s(2) by (simp add: opt_steps_append del: upt_Suc)
    also have "\<dots> = [Suc g0..<Suc ?m]" by (rule upt_conv_Cons [OF le, symmetric])
    finally have os: "opt_steps (OptStep (g0 + 1) # evs @ evs') = [Suc g0..<Suc ?m]" .
    have er: "epochs_run (OptStep (g0 + 1) # evs @ evs') = []"
      using IH s(3) by (simp add: epochs_run_append)
    show ?thesis
      unfolding X m fst_conv snd_conv using IH os er by blast
  qed
qed

lemma epoch_loop_steps:
  assumes "\<forall>g p. pipetest_ok env g p" and "a_save_step a \<noteq> 0"
  shows "(es = [] \<and> g0 = nat (a_train_steps a)) \<or>
         (es \<noteq> [] \<and> int (g0 + (length es - 1) * E) < a_train_steps a \<and>
            a_train_steps a \<le> int (g0 + length es * E)) \<Longrightarrow>
     fst (epoch_loop env a inp E es g0) = Inr (nat (a_train_steps a)) \<and>
     opt_steps (snd (epoch_loop env a inp E es g0)) = [Suc g0..<Suc (nat (a_train_steps a))] \<and>
     epochs_run (snd (epoch_loop env a inp E es g0)) = es"
proof (induction es arbitrary: g0)
  case Nil
  then show ?case by simp
next
  case (Cons e es)
  let ?T = "a_train_steps a"
  have b1: "int (g0 + length es * E) < ?T" and b2: "?T \<le> int (g0 + Suc (length es) * E)"
    using Cons.prems by auto
  have "g0 \<le> g0 + length es * E" by simp
  then have "int g0 \<le> int (g0 + length es * E)" by (rule iffD2 [OF of_nat_le_iff])
  then have g0: "int g0 < ?T" using b1 by (rule le_less_trans)
  obtain r evs where s: "batch_loop env a inp E g0 = (r, evs)"
    by (cases "batch_loop env a inp E g0")
  let ?g1 = "min (g0 + E) (nat ?T)"
  have B: "r = Inr ?g1" "opt_steps evs = [Suc g0..<Suc ?g1]" "epochs_run evs = []"
    using batch_loop_steps [OF assms g0, of inp E] s by simp_all
  obtain r' evs' where rec: "epoch_loop env a inp E es ?g1 = (r', evs')"
    by (cases "epoch_loop env a inp E es ?g1")
  have pre: "(es = [] \<and> ?g1 = nat ?T) \<or>
         (es \<noteq> [] \<and> int (?g1 + (length es - 1) * E) < ?T \<and> ?T \<le> int (?g1 + length es * E))"
  proof (cases es)
    case Nil
    then show ?thesis using b2 g0 by simp
  next
    case (Cons x xs)
    have "g0 + E \<le> g0 + length es * E" using Cons by simp
    then have "int (g0 + E) < ?T" using b1 by linarith
    then have g1: "?g1 = g0 + E" by simp
    show ?thesis unfolding g1 using Cons b1 b2 by (simp add: algebra_simps)
  qed
  have IH: "r' = Inr (nat ?T) \<and> opt_steps evs' = [Suc ?g1..<Suc (nat ?T)] \<and> epochs_run evs' = es"
    using Cons.IH [OF pre] rec by simp
  have X: "epoch_loop env a inp E (e # es) g0 = (r', TrainMode e # evs @ evs')"
    using s B(1) rec by simp
  have "[Suc g0..<Suc ?g1] @ [Suc ?g1..<Suc (nat ?T)] = [Suc g0..<Suc (nat ?T)]"
    using g0 by (intro upt_join) simp_all
  then show ?case unfolding X using IH B by (simp add: opt_steps_append epochs_run_append)
qed

lemma ceiling_bounds:
  fixes T :: int and E :: nat
  assumes "0 < E" and "0 < T" and "N = nat \<lceil>real_of_int T / real E\<rceil>"
  shows "int ((N - 1) * E) < T \<and> T \<le> int (N * E) \<and> 0 < N"
proof -
  define c where "c = \<lceil>real_of_int T / real E\<rceil>"
  have "0 < real_of_int T / real E" using assms(1,2) by simp
  then have cpos: "0 < c" unfolding c_def by simp
  have E: "0 < real E" using assms(1) by simp
  have "(real_of_int c - 1) * real E < real_of_int T"
    unfolding c_def
    by (subst pos_less_divide_eq [symmetric, OF E]) (rule conjunct1 [OF ceiling_correct])
  moreover have "real_of_int ((c - 1) * int E) = (real_of_int c - 1) * real E" by simp
  ultimately have "real_of_int ((c - 1) * int E) < real_of_int T" by (simp only:)
  then have l: "(c - 1) * int E < T" by (simp only: of_int_less_iff)
  have "real_of_int T \<le> real_of_int c * real E"
    unfolding c_def
    by (subst pos_divide_le_eq [symmetric, OF E]) (rule le_of_int_ceiling)
  moreover have "real_of_int (c * int E) = real_of_int c * real E" by simp
  ultimately have "real_of_int T \<le> real_of_int (c * int E)" by (simp only:)
  then have u: "T \<le> c * int E" by (simp only: of_int_le_iff)
  have N: "N = nat c" using assms(3) c_def by simp
  have n: "int N = c" using cpos N by simp
  have n1: "int (N - 1) = c - 1" using cpos N by simp
  have A: "int ((N - 1) * E) = (c - 1) * int E" by (simp only: of_nat_mult n1)
  have B: "int (N * E) = c * int E" by (simp only: of_nat_mult n)
  have C: "0 < N" using cpos N by simp
  show ?thesis unfolding A B using l u C by blast
qed

text \<open>
  C7. The claim: with at least one batch to the epoch the loop performs exactly
  \<open>train_steps\<close> steps. The code evaluated at three batches to the epoch, seven steps and
  \<open>--save_step 0\<close>: line 200 raises at the first step, after one optimizer step of seven.
\<close>

theorem training_loop_stops_at_save_step_zero:
  "training_loop (small_env True) (default_args\<lparr>a_train_steps := 7, a_save_step := 0\<rparr>)
     \<lparr>p_with_prior = False, p_mod_tokens = [''<a>''], p_init_tokens = [''cat''],
      p_data_dirs = [''d''], p_term_data_dirs = None\<rparr> 3
   = (Inl ZeroDivisionError, [TrainMode 0, OptStep 1])"
  by (simp add: training_loop_def true_div_def shift_left.simps round_half_even_def Let_def
      save_and_sample_def default_args_def batch_loop_numeral upt_zero_numeral)

text \<open>
  C7, as the code has it. With at least one batch to the epoch (and no more than
  \<open>2 ^ 1022\<close>), a number of steps below \<open>2 ^ 53\<close> in absolute value, a save interval
  other than zero and a sampling pipeline that returns, the loop ends at global step
  \<open>train_steps\<close> (at 0 when \<open>train_steps\<close> is negative), having run the steps 1 to
  \<open>train_steps\<close> and no other, over the epochs 0 to
  \<open>ceiling (train_steps / epoch_steps) - 1\<close>.
\<close>

theorem training_loop_runs_train_steps:
  assumes "0 < epoch_steps" and "epoch_steps \<le> 2 ^ 1022"
      and "\<bar>a_train_steps a\<bar> < 2 ^ 53"
      and "a_save_step a \<noteq> 0"
      and "\<forall>g p. pipetest_ok env g p"
  shows "fst (training_loop env a inp epoch_steps) = Inr (nat (a_train_steps a))
       \<and> opt_steps (snd (training_loop env a inp epoch_steps)) = [1..<Suc (nat (a_train_steps a))]
       \<and> epochs_run (snd (training_loop env a inp epoch_steps)) =
           [0..<nat \<lceil>real_of_int (a_train_steps a) / real epoch_steps\<rceil>]"
proof -
  let ?E = "epoch_steps"
  let ?T = "a_train_steps a"
  define N where "N = nat \<lceil>real_of_int ?T / real ?E\<rceil>"
  obtain v where v: "true_div ?T ?E = Inr v" "nat \<lceil>v\<rceil> = N"
    using true_div_ceiling [OF assms(1,2,3)] unfolding N_def by blast
  have tl: "training_loop env a inp ?E = epoch_loop env a inp ?E [0..<N] 0"
    using v by (simp add: training_loop_def Let_def)
  have pre: "([0..<N] = [] \<and> 0 = nat ?T) \<or>
         ([0..<N] \<noteq> [] \<and> int (0 + (length [0..<N] - 1) * ?E) < ?T \<and>
            ?T \<le> int (0 + length [0..<N] * ?E))"
  proof (cases "0 < ?T")
    case True
    note cb = ceiling_bounds [OF assms(1) True N_def]
    have len: "length [0..<N] = N" by simp
    have ne: "[0..<N] \<noteq> []" using cb by simp
    show ?thesis unfolding len add_0 using cb ne by blast
  next
    case False
    then have "real_of_int ?T / real ?E \<le> 0" using assms(1) by (simp add: divide_nonpos_pos)
    then have "\<lceil>real_of_int ?T / real ?E\<rceil> \<le> 0" by (simp add: ceiling_le_iff)
    then have "N = 0" unfolding N_def by simp
    then show ?thesis using False by simp
  qed
  show ?thesis
    unfolding tl N_def [symmetric] using epoch_loop_steps [OF assms(5,4) pre, of inp] by simp
qed

text \<open>
  C7, at three batches to the epoch and seven steps: the steps 1 to 7 over the epochs 0, 1
  and 2.
\<close>

theorem training_loop_runs_train_steps_witness:
  "fst (training_loop (small_env True) (default_args\<lparr>a_train_steps := 7\<rparr>)
          \<lparr>p_with_prior = False, p_mod_tokens = [''<a>''], p_init_tokens = [''cat''],
           p_data_dirs = [''d''], p_term_data_dirs = None\<rparr> 3) = Inr 7
   \<and> opt_steps (snd (training_loop (small_env True) (default_args\<lparr>a_train_steps := 7\<rparr>)
          \<lparr>p_with_prior = False, p_mod_tokens = [''<a>''], p_init_tokens = [''cat''],
           p_data_dirs = [''d''], p_term_data_dirs = None\<rparr> 3))
       = [1, 2, 3, 4, 5, 6, 7]
   \<and> epochs_run (snd (training_loop (small_env True) (default_args\<lparr>a_train_steps := 7\<rparr>)
          \<lparr>p_with_prior = False, p_mod_tokens = [''<a>''], p_init_tokens = [''cat''],
           p_data_dirs = [''d''], p_term_data_dirs = None\<rparr> 3))
       = [0, 1, 2]"
proof -
  let ?a = "default_args\<lparr>a_train_steps := 7\<rparr>"
  let ?inp = "\<lparr>p_with_prior = False, p_mod_tokens = [''<a>''], p_init_tokens = [''cat''],
               p_data_dirs = [''d''], p_term_data_dirs = None\<rparr>"
  have h1: "(0::nat) < 3" by simp
  have h2: "(3::nat) \<le> 2 ^ 1022" by simp
  have h3: "\<bar>a_train_steps ?a\<bar> < 2 ^ 53" by simp
  have h4: "a_save_step ?a \<noteq> 0" by (simp add: default_args_def)
  have h5: "\<forall>g p. pipetest_ok (small_env True) g p" by (simp add: small_env_def)
  have e: "nat \<lceil>real_of_int (a_train_steps ?a) / real (3::nat)\<rceil> = 3" by simp
  have s: "[1..<Suc (nat (a_train_steps ?a))] = [1, 2, 3, 4, 5, 6, 7]"
    by (simp add: upt_rec)
  have z: "[0..<3] = [0, 1, 2::nat]" by (simp add: upt_rec)
  show ?thesis
    using training_loop_runs_train_steps [OF h1 h2 h3 h4 h5, of ?inp] unfolding e s z by simp
qed

end
